theory Spec2Isabelle
  imports Complex_Main "HOL-Library.Char_ord" "HOL-Library.List_Lexorder"
    "HOL-Library.Monad_Syntax"
begin

section \<open>Similarity labels (rdn\_photo\_comparison.py)\<close>

text \<open>
  Scores are Python floats; they are modelled as reals. The comparisons of the source
  are exact on floats, so only the literals \<open>0.8\<close> and \<open>0.6\<close> (which stand for the
  nearest doubles) are idealised.
\<close>


text \<open>The batch loop stores \<^verbatim>\<open>'match': score > 0.75\<close> in every result.\<close>

definition batch_match :: "real \<Rightarrow> bool" where
  "batch_match score = (score > 0.75)"


section \<open>The similarity engine (rdn\_photo\_comparison.py)\<close>

text \<open>
  \<^verbatim>\<open>compare_images\<close> is a sequence of calls into PIL, numpy, OpenCV and scikit-image, all
  inside one \<^verbatim>\<open>try\<close> block. The libraries are not part of the repository, so they are a
  parameter of the model: a record with one field per call, each returning \<open>None\<close> where
  the call raises. \<open>'f\<close> is an uploaded file, \<open>'p\<close> a PIL image, \<open>'a\<close> a numpy array and
  \<open>'c\<close> a contour.
\<close>

datatype color_code = COLOR_RGB2BGR | COLOR_BGR2GRAY | COLOR_BGR2RGB

record ('f, 'p, 'a, 'c) imaging =
  Image_open :: "'f \<Rightarrow> 'p option"
  np_array :: "'p \<Rightarrow> 'a option"
  shape :: "'a \<Rightarrow> nat list"
  cvtColor :: "'a \<Rightarrow> color_code \<Rightarrow> 'a option"
  resize :: "'a \<Rightarrow> nat \<times> nat \<Rightarrow> 'a option"
  ssim :: "'a \<Rightarrow> 'a \<Rightarrow> (real \<times> 'a) option"
  scale_uint8 :: "'a \<Rightarrow> 'a option"
  threshold_otsu_inv :: "'a \<Rightarrow> 'a option"
  findContours :: "'a \<Rightarrow> 'c list option"
  contourArea :: "'c \<Rightarrow> real option"
  boundingRect :: "'c \<Rightarrow> (int \<times> int \<times> int \<times> int) option"
  rectangle :: "'a \<Rightarrow> int \<times> int \<Rightarrow> int \<times> int \<Rightarrow> 'a option"

text \<open>The argument of \<^verbatim>\<open>compare_images\<close> is a PIL image or already an array.\<close>

datatype ('p, 'a) image_arg = PIL 'p | NDArray 'a

text \<open>
  \<^verbatim>\<open>if isinstance(image1, Image.Image): image1 = np.array(image1)\<close>
\<close>

definition to_array :: "('f, 'p, 'a, 'c) imaging \<Rightarrow> ('p, 'a) image_arg \<Rightarrow> 'a option" where
  "to_array lib img = (case img of PIL p \<Rightarrow> np_array lib p | NDArray a \<Rightarrow> Some a)"

text \<open>
  \<^verbatim>\<open>if len(image1.shape) == 3 and image1.shape[2] == 3:
      image1 = cv2.cvtColor(image1, cv2.COLOR_RGB2BGR)\<close>
\<close>

definition to_bgr :: "('f, 'p, 'a, 'c) imaging \<Rightarrow> 'a \<Rightarrow> 'a option" where
  "to_bgr lib img =
     (if length (shape lib img) = 3 \<and> shape lib img ! 2 = 3
      then cvtColor lib img COLOR_RGB2BGR else Some img)"

text \<open>\<^verbatim>\<open>image.shape[i]\<close> raises IndexError when the shape tuple is too short.\<close>

definition shape_at :: "('f, 'p, 'a, 'c) imaging \<Rightarrow> 'a \<Rightarrow> nat \<Rightarrow> nat option" where
  "shape_at lib img i =
     (if i < length (shape lib img) then Some (shape lib img ! i) else None)"

text \<open>
  \<^verbatim>\<open>
  for contour in contours:
      if cv2.contourArea(contour) > 100:
          x, y, w, h = cv2.boundingRect(contour)
          cv2.rectangle(image_copy, (x, y), (x + w, y + h), (0, 0, 255), 2)
  \<close>
  The drawing mutates \<^verbatim>\<open>image_copy\<close>; the model passes the image along.
\<close>

fun draw_rectangles :: "('f, 'p, 'a, 'c) imaging \<Rightarrow> 'a \<Rightarrow> 'c list \<Rightarrow> 'a option" where
  "draw_rectangles lib image_copy [] = Some image_copy"
| "draw_rectangles lib image_copy (contour # contours) = do {
     area \<leftarrow> contourArea lib contour;
     if area > 100 then do {
       (x, y, w, h) \<leftarrow> boundingRect lib contour;
       drawn \<leftarrow> rectangle lib image_copy (x, y) (x + w, y + h);
       draw_rectangles lib drawn contours
     } else draw_rectangles lib image_copy contours
   }"

text \<open>The body of the \<^verbatim>\<open>try\<close> block, line by line; \<open>None\<close> is any exception.\<close>

definition compare_body ::
  "('f, 'p, 'a, 'c) imaging \<Rightarrow> ('p, 'a) image_arg \<Rightarrow> ('p, 'a) image_arg \<Rightarrow>
     (real \<times> 'a \<times> 'a \<times> 'a) option" where
  "compare_body lib image1 image2 = do {
     array1 \<leftarrow> to_array lib image1;
     array2 \<leftarrow> to_array lib image2;
     bgr1 \<leftarrow> to_bgr lib array1;
     bgr2 \<leftarrow> to_bgr lib array2;
     h1 \<leftarrow> shape_at lib bgr1 0;
     h2 \<leftarrow> shape_at lib bgr2 0;
     w1 \<leftarrow> shape_at lib bgr1 1;
     w2 \<leftarrow> shape_at lib bgr2 1;
     resized1 \<leftarrow> resize lib bgr1 (min w1 w2, min h1 h2);
     resized2 \<leftarrow> resize lib bgr2 (min w1 w2, min h1 h2);
     gray1 \<leftarrow> cvtColor lib resized1 COLOR_BGR2GRAY;
     gray2 \<leftarrow> cvtColor lib resized2 COLOR_BGR2GRAY;
     (sc, diff) \<leftarrow> ssim lib gray1 gray2;
     diff8 \<leftarrow> scale_uint8 lib diff;
     thresh \<leftarrow> threshold_otsu_inv lib diff8;
     contours \<leftarrow> findContours lib thresh;
     image_copy \<leftarrow> draw_rectangles lib resized2 contours;
     rgb1 \<leftarrow> cvtColor lib resized1 COLOR_BGR2RGB;
     rgb2 \<leftarrow> cvtColor lib resized2 COLOR_BGR2RGB;
     rgb_copy \<leftarrow> cvtColor lib image_copy COLOR_BGR2RGB;
     Some (sc, rgb1, rgb2, rgb_copy)
   }"

text \<open>
  \<^verbatim>\<open>return score, image1, image2, image_copy\<close> on success,
  \<^verbatim>\<open>return None, None, None, None\<close> from the \<^verbatim>\<open>except\<close> clause.
\<close>

definition compare_images ::
  "('f, 'p, 'a, 'c) imaging \<Rightarrow> ('p, 'a) image_arg \<Rightarrow> ('p, 'a) image_arg \<Rightarrow>
     real option \<times> 'a option \<times> 'a option \<times> 'a option" where
  "compare_images lib image1 image2 =
     (case compare_body lib image1 image2 of
        None \<Rightarrow> (None, None, None, None)
      | Some (sc, rgb1, rgb2, rgb_copy) \<Rightarrow> (Some sc, Some rgb1, Some rgb2, Some rgb_copy))"


subsection \<open>Array shapes under OpenCV\<close>

text \<open>
  What the OpenCV calls of \<^verbatim>\<open>compare_images\<close> do to the shape of an array, after the
  library's documentation. An array of shape \<open>[h, w]\<close> has one channel, one of shape
  \<open>[h, w, c]\<close> has \<open>c\<close> channels. \<^verbatim>\<open>cv2.cvtColor\<close> with \<^verbatim>\<open>COLOR_RGB2BGR\<close>,
  \<^verbatim>\<open>COLOR_BGR2RGB\<close> or \<^verbatim>\<open>COLOR_BGR2GRAY\<close> accepts three or four channels and raises
  \<^verbatim>\<open>cv2.error\<close> (invalid number of channels in input image) on anything else; the first
  two return three channels, the last a two-dimensional array.
\<close>

definition cvtColor_shape :: "nat list \<Rightarrow> color_code \<Rightarrow> nat list option" where
  "cvtColor_shape s code =
     (case s of
        [h, w, c] \<Rightarrow>
          if c = 3 \<or> c = 4
          then Some (case code of COLOR_BGR2GRAY \<Rightarrow> [h, w] | _ \<Rightarrow> [h, w, 3])
          else None
      | _ \<Rightarrow> None)"

text \<open>
  \<^verbatim>\<open>cv2.resize(img, (width, height))\<close> returns an array of the requested height and width
  with the channels of its input (a single channel comes back two-dimensional); it raises
  on an empty source or an empty target size.
\<close>

definition resize_shape :: "nat list \<Rightarrow> nat \<times> nat \<Rightarrow> nat list option" where
  "resize_shape s dsize =
     (case dsize of (width, height) \<Rightarrow>
        if width = 0 \<or> height = 0 then None
        else (case s of
                [h, w] \<Rightarrow> if h = 0 \<or> w = 0 then None else Some [height, width]
              | [h, w, c] \<Rightarrow>
                  if h = 0 \<or> w = 0 \<or> c = 0 then None
                  else if c = 1 then Some [height, width]
                  else Some [height, width, c]
              | _ \<Rightarrow> None))"

text \<open>
  Any imaging library, seen through the shapes of its arrays: files and PIL images are
  identified with the shape of the array they decode to, and every file decodes. The
  numeric calls (structural similarity, thresholding, contours) are those of \<open>base\<close>.
\<close>

definition opencv_shapes ::
  "(nat list, nat list, nat list, 'c) imaging \<Rightarrow> (nat list, nat list, nat list, 'c) imaging" where
  "opencv_shapes base =
     base\<lparr>Image_open := Some, np_array := Some, shape := (\<lambda>s. s),
          cvtColor := cvtColor_shape, resize := resize_shape\<rparr>"


section \<open>The batch comparison (rdn\_photo\_comparison.py, main)\<close>

text \<open>An uploaded file: its name and its bytes.\<close>

record 'f uploaded_file =
  name :: string
  content :: 'f

text \<open>\<^verbatim>\<open>os.path.basename\<close>: what follows the last slash.\<close>

definition basename :: "string \<Rightarrow> string" where
  "basename p = rev (takeWhile (\<lambda>c. c \<noteq> CHR ''/'') (rev p))"

text \<open>
  \<^verbatim>\<open>ref_dict = {os.path.basename(f.name): f for f in ref_files}\<close>: of two files with
  the same key the later one stays.
\<close>

definition file_dict :: "'f uploaded_file list \<Rightarrow> (string \<rightharpoonup> 'f uploaded_file)" where
  "file_dict files = map_of (rev (map (\<lambda>f. (basename (name f), f)) files))"

definition dict_keys :: "'f uploaded_file list \<Rightarrow> string set" where
  "dict_keys files = set (map (\<lambda>f. basename (name f)) files)"

text \<open>
  \<^verbatim>\<open>common_files = set(ref_dict.keys()) & set(field_dict.keys())\<close>
\<close>

definition common_files :: "'f uploaded_file list \<Rightarrow> 'f uploaded_file list \<Rightarrow> string set" where
  "common_files ref_files field_files = dict_keys ref_files \<inter> dict_keys field_files"

text \<open>One entry of \<^verbatim>\<open>results\<close>.\<close>

record 'a batch_result =
  filename :: string
  score :: real
  match :: bool
  diff_img :: "'a option"

record summary =
  total :: nat
  matched :: nat
  percentage :: real

datatype batch_error = KeyError string | ImageOpenError string | ZeroDivisionError

datatype 'a batch_outcome =
    NothingUploaded
  | NoMatchingFilenames
  | BatchCompleted "'a batch_result list" summary

text \<open>
  The body of the loop for one filename. \<^verbatim>\<open>Image.open\<close> is outside every \<^verbatim>\<open>try\<close>: when it
  raises, the exception leaves \<^verbatim>\<open>main\<close>. A comparison without a score adds nothing.
  \<^verbatim>\<open>
  ref_img = Image.open(ref_dict[filename])
  field_img = Image.open(field_dict[filename])
  score, _, _, diff_img = compare_images(ref_img, field_img)
  if score is not None:
      results.append({'filename': filename, 'score': score,
                      'match': score > 0.75, 'diff_img': diff_img})
  \<close>
\<close>

definition compare_file ::
  "('f, 'p, 'a, 'c) imaging \<Rightarrow> (string \<rightharpoonup> 'f uploaded_file) \<Rightarrow> (string \<rightharpoonup> 'f uploaded_file) \<Rightarrow>
     string \<Rightarrow> batch_error + 'a batch_result option" where
  "compare_file lib ref_dict field_dict fn =
     (case ref_dict fn of
        None \<Rightarrow> Inl (KeyError fn)
      | Some ref_file \<Rightarrow>
     (case field_dict fn of
        None \<Rightarrow> Inl (KeyError fn)
      | Some field_file \<Rightarrow>
     (case Image_open lib (content ref_file) of
        None \<Rightarrow> Inl (ImageOpenError fn)
      | Some ref_img \<Rightarrow>
     (case Image_open lib (content field_file) of
        None \<Rightarrow> Inl (ImageOpenError fn)
      | Some field_img \<Rightarrow>
     (case fst (compare_images lib (PIL ref_img) (PIL field_img)) of
        None \<Rightarrow> Inr None
      | Some s \<Rightarrow>
          Inr (Some \<lparr>filename = fn, score = s, match = batch_match s,
                 diff_img = snd (snd (snd (compare_images lib (PIL ref_img) (PIL field_img))))\<rparr>))))))"

text \<open>\<^verbatim>\<open>for i, filename in enumerate(sorted(common_files)): ...\<close>\<close>

fun batch_loop ::
  "('f, 'p, 'a, 'c) imaging \<Rightarrow> (string \<rightharpoonup> 'f uploaded_file) \<Rightarrow> (string \<rightharpoonup> 'f uploaded_file) \<Rightarrow>
     string list \<Rightarrow> 'a batch_result list \<Rightarrow> batch_error + 'a batch_result list" where
  "batch_loop lib ref_dict field_dict [] results = Inr results"
| "batch_loop lib ref_dict field_dict (fn # fns) results =
     (case compare_file lib ref_dict field_dict fn of
        Inl e \<Rightarrow> Inl e
      | Inr None \<Rightarrow> batch_loop lib ref_dict field_dict fns results
      | Inr (Some r) \<Rightarrow> batch_loop lib ref_dict field_dict fns (results @ [r]))"

text \<open>
  \<^verbatim>\<open>
  matched = sum(1 for r in results if r['match'])
  total = len(results)
  ... {matched/total*100:.1f}% ...
  \<close>
  The division is Python's true division of two integers; it raises on a zero divisor.
\<close>

definition summary_statistics :: "'a batch_result list \<Rightarrow> batch_error + summary" where
  "summary_statistics results =
     (let m = length (filter match results); t = length results
      in if t = 0 then Inl ZeroDivisionError
         else Inr \<lparr>total = t, matched = m, percentage = real m / real t * 100\<rparr>)"

text \<open>The batch branch of \<^verbatim>\<open>main\<close>, once the button is pressed.\<close>

definition batch_comparison ::
  "('f, 'p, 'a, 'c) imaging \<Rightarrow> 'f uploaded_file list \<Rightarrow> 'f uploaded_file list \<Rightarrow>
     batch_error + 'a batch_outcome" where
  "batch_comparison lib ref_files field_files =
     (if ref_files = [] \<or> field_files = [] then Inr NothingUploaded
      else if common_files ref_files field_files = {} then Inr NoMatchingFilenames
      else (case batch_loop lib (file_dict ref_files) (file_dict field_files)
                   (sorted_list_of_set (common_files ref_files field_files)) [] of
              Inl e \<Rightarrow> Inl e
            | Inr results \<Rightarrow>
                (case summary_statistics results of
                   Inl e \<Rightarrow> Inl e
                 | Inr st \<Rightarrow> Inr (BatchCompleted results st))))"


section \<open>Pairing files of a folder (verification\_app.py)\<close>

text \<open>
  File names are strings of bytes. \<^verbatim>\<open>str.lower\<close> is modelled on the ASCII letters, which
  is all that the three extensions tested below can see.
\<close>

definition lower_char :: "char \<Rightarrow> char" where
  "lower_char c =
     (case map_of (zip ''ABCDEFGHIJKLMNOPQRSTUVWXYZ'' ''abcdefghijklmnopqrstuvwxyz'') c of
        Some l \<Rightarrow> l
      | None \<Rightarrow> c)"

definition lower :: "string \<Rightarrow> string" where
  "lower s = map lower_char s"

definition endswith :: "string \<Rightarrow> string \<Rightarrow> bool" where
  "endswith s suf \<longleftrightarrow> length suf \<le> length s \<and> drop (length s - length suf) s = suf"

definition startswith :: "string \<Rightarrow> string \<Rightarrow> bool" where
  "startswith s pre \<longleftrightarrow> take (length pre) s = pre"

text \<open>
  The text before the first occurrence of \<open>sep\<close> in \<open>s\<close>, if \<open>sep\<close> occurs: the scan of
  \<^verbatim>\<open>str.find\<close>, \<^verbatim>\<open>in\<close> and \<^verbatim>\<open>str.split\<close>, from the left.
\<close>

fun before_first :: "string \<Rightarrow> string \<Rightarrow> string option" where
  "before_first sep [] = (if sep = [] then Some [] else None)"
| "before_first sep (c # cs) =
     (if startswith (c # cs) sep then Some []
      else map_option (\<lambda>p. c # p) (before_first sep cs))"

text \<open>\<^verbatim>\<open>sep in s\<close>\<close>

definition contains :: "string \<Rightarrow> string \<Rightarrow> bool" where
  "contains s sep \<longleftrightarrow> before_first sep s \<noteq> None"

text \<open>\<^verbatim>\<open>s.split(sep)[0]\<close>, for a separator that is not empty.\<close>

definition split_head :: "string \<Rightarrow> string \<Rightarrow> string" where
  "split_head s sep = (case before_first sep s of Some p \<Rightarrow> p | None \<Rightarrow> s)"

text \<open>\<^verbatim>\<open>file.lower().endswith(('.png', '.jpg', '.jpeg'))\<close>\<close>

definition is_image_name :: "string \<Rightarrow> bool" where
  "is_image_name file \<longleftrightarrow>
     endswith (lower file) ''.png'' \<or> endswith (lower file) ''.jpg'' \<or>
     endswith (lower file) ''.jpeg''"

text \<open>\<^verbatim>\<open>os.path.join\<close> of two components, on POSIX.\<close>

definition path_join :: "string \<Rightarrow> string \<Rightarrow> string" where
  "path_join a b =
     (if startswith b ''/'' \<and> b \<noteq> [] then b
      else if a = [] \<or> endswith a ''/'' then a @ b
      else a @ ''/'' @ b)"

text \<open>
  \<^verbatim>\<open>image_pairs\<close> is a dictionary from identifier to a dictionary with the optional keys
  \<^verbatim>\<open>'original'\<close> and \<^verbatim>\<open>'proof'\<close>. Python dictionaries keep insertion order, and the
  order decides the order of the returned pairs, so the model is an association list
  with one entry per key.
\<close>

record pair_entry =
  original_file :: "string option"
  proof_file :: "string option"

type_synonym pair_dict = "(string \<times> pair_entry) list"

text \<open>
  \<^verbatim>\<open>image_pairs.setdefault(base_id, {})[role] = file\<close>: a known key keeps its place, a new
  one goes to the end.
\<close>

definition setdefault_update ::
  "pair_dict \<Rightarrow> string \<Rightarrow> (pair_entry \<Rightarrow> pair_entry) \<Rightarrow> pair_dict" where
  "setdefault_update d k f =
     (if k \<in> fst ` set d then map (\<lambda>(k', e). (k', if k' = k then f e else e)) d
      else d @ [(k, f \<lparr>original_file = None, proof_file = None\<rparr>)])"

text \<open>
  The body of the first loop:
  \<^verbatim>\<open>
  if file.lower().endswith(('.png', '.jpg', '.jpeg')):
      if '_original' in file:
          base_id = file.split('_original')[0]
          image_pairs.setdefault(base_id, {})['original'] = file
      elif '_proof' in file:
          base_id = file.split('_proof')[0]
          image_pairs.setdefault(base_id, {})['proof'] = file
  \<close>
  The tests and the identifier are \<open>classify\<close>, the update of the dictionary is
  \<open>add_file\<close>.
\<close>

datatype role = Original | Proof

definition classify :: "string \<Rightarrow> (role \<times> string) option" where
  "classify file =
     (if is_image_name file then
        if contains file ''_original'' then Some (Original, split_head file ''_original'')
        else if contains file ''_proof'' then Some (Proof, split_head file ''_proof'')
        else None
      else None)"

definition add_file :: "pair_dict \<Rightarrow> string \<Rightarrow> pair_dict" where
  "add_file d file =
     (case classify file of
        None \<Rightarrow> d
      | Some (Original, base_id) \<Rightarrow>
          setdefault_update d base_id (\<lambda>e. e\<lparr>original_file := Some file\<rparr>)
      | Some (Proof, base_id) \<Rightarrow>
          setdefault_update d base_id (\<lambda>e. e\<lparr>proof_file := Some file\<rparr>))"

text \<open>One element of \<^verbatim>\<open>valid_pairs\<close>.\<close>

record image_pair =
  pair_id :: string
  original_path :: string
  proof_path :: string

text \<open>
  The second loop:
  \<^verbatim>\<open>
  for base_id, pair in image_pairs.items():
      if 'original' in pair and 'proof' in pair:
          valid_pairs.append({'id': base_id,
              'original': os.path.join(folder_path, pair['original']),
              'proof': os.path.join(folder_path, pair['proof'])})
  \<close>
\<close>

fun valid_pairs :: "string \<Rightarrow> pair_dict \<Rightarrow> image_pair list" where
  "valid_pairs folder [] = []"
| "valid_pairs folder ((base_id, e) # d) =
     (case (original_file e, proof_file e) of
        (Some orig, Some prf) \<Rightarrow>
          \<lparr>pair_id = base_id, original_path = path_join folder orig,
           proof_path = path_join folder prf\<rparr> # valid_pairs folder d
      | _ \<Rightarrow> valid_pairs folder d)"

text \<open>
  The file system as the program sees it: \<^verbatim>\<open>os.listdir\<close> (\<open>None\<close> where it raises) and
  \<^verbatim>\<open>os.path.exists\<close>.
\<close>

record filesystem =
  listdir :: "string \<Rightarrow> string list option"
  path_exists :: "string \<Rightarrow> bool"

text \<open>\<^verbatim>\<open>get_image_pairs\<close>; the \<^verbatim>\<open>except\<close> clause returns the empty list.\<close>

definition get_image_pairs :: "filesystem \<Rightarrow> string \<Rightarrow> image_pair list" where
  "get_image_pairs fs folder =
     (case listdir fs folder of
        None \<Rightarrow> []
      | Some files \<Rightarrow> valid_pairs folder (foldl add_file [] files))"

section \<open>The verification session (verification\_app.py, main)\<close>

datatype decision = Yes | No | No_Decision

record decision_record =
  property_id :: string
  decision_made :: decision
  timestamp :: string

text \<open>\<^verbatim>\<open>st.session_state.verification_data\<close>\<close>

record session =
  current_pair :: nat
  decisions :: "decision_record list"
  image_pairs :: "image_pair list"
  verification_complete :: bool
  folder_path :: "string option"

definition initial_session :: session where
  "initial_session =
     \<lparr>current_pair = 0, decisions = [], image_pairs = [], verification_complete = False,
      folder_path = None\<rparr>"

text \<open>
  What one run of the script reads from outside: the text of the folder input, the
  button that was clicked (at most one per run), the clock and the file system.
\<close>

record run_input =
  text_input :: string
  button :: "decision option"
  now :: string
  files :: filesystem

text \<open>
  One pass of \<^verbatim>\<open>main\<close> over the session state. The result says whether the pass ended in
  \<^verbatim>\<open>st.rerun()\<close>.
\<close>

definition script_pass :: "run_input \<Rightarrow> session \<Rightarrow> session \<times> bool" where
  "script_pass inp st0 =
     (let path = text_input inp;
          st = (if path \<noteq> [] \<and> Some path \<noteq> folder_path st0
                then \<lparr>current_pair = 0, decisions = [],
                      image_pairs = get_image_pairs (files inp) path,
                      verification_complete = False, folder_path = Some path\<rparr>
                else st0)
      in if path = [] then (st, False)
         else if \<not> path_exists (files inp) path then (st, False)
         else if image_pairs st = [] then (st, False)
         else if current_pair st \<ge> length (image_pairs st)
         then (st\<lparr>verification_complete := True\<rparr>, False)
         else (case button inp of
                 None \<Rightarrow> (st, False)
               | Some d \<Rightarrow>
                   (st\<lparr>decisions := decisions st @
                          [\<lparr>property_id = pair_id (image_pairs st ! current_pair st),
                            decision_made = d, timestamp = now inp\<rparr>],
                       current_pair := current_pair st + 1\<rparr>, True)))"

text \<open>
  A run of the script: \<^verbatim>\<open>st.rerun()\<close> starts the script again at once, with the same
  text in the folder input and no button clicked.
\<close>

definition main_run :: "run_input \<Rightarrow> session \<Rightarrow> session" where
  "main_run inp st =
     (case script_pass inp st of
        (st', rerun) \<Rightarrow> if rerun then fst (script_pass (inp\<lparr>button := None\<rparr>) st') else st')"

text \<open>The session after a sequence of runs, starting from a fresh session.\<close>

definition session_after :: "run_input list \<Rightarrow> session" where
  "session_after inps = foldl (\<lambda>st inp. main_run inp st) initial_session inps"

text \<open>
  Runs of the script as the user causes them: entering a folder path, and clicking one
  of the three buttons while the path stays in the input.
\<close>

definition open_folder :: "filesystem \<Rightarrow> string \<Rightarrow> string \<Rightarrow> run_input" where
  "open_folder fs path t = \<lparr>text_input = path, button = None, now = t, files = fs\<rparr>"

definition click :: "filesystem \<Rightarrow> string \<Rightarrow> decision \<times> string \<Rightarrow> run_input" where
  "click fs path dt = \<lparr>text_input = path, button = Some (fst dt), now = snd dt, files = fs\<rparr>"

text \<open>
  A review: the folder is entered at time \<open>t0\<close>, then the decisions \<open>ds\<close> are clicked,
  each with the time of its click.
\<close>

definition review :: "filesystem \<Rightarrow> string \<Rightarrow> string \<Rightarrow> (decision \<times> string) list \<Rightarrow> run_input list" where
  "review fs path t0 ds = open_folder fs path t0 # map (click fs path) ds"

text \<open>The record that a click on decision \<open>d\<close> at time \<open>t\<close> logs for a pair.\<close>

definition logged :: "image_pair \<Rightarrow> decision \<times> string \<Rightarrow> decision_record" where
  "logged p dt = \<lparr>property_id = pair_id p, decision_made = fst dt, timestamp = snd dt\<rparr>"

text \<open>
  Two folders for concrete runs: one whose listing holds two complete pairs and other
  files, one whose listing holds no complete pair.
\<close>

definition two_pairs_folder :: filesystem where
  "two_pairs_folder =
     \<lparr>listdir = (\<lambda>p. Some [''12_original.jpg'', ''7_proof.PNG'', ''12_proof.jpg'',
                          ''notes.txt'', ''7_original.png'', ''9_original.jpeg'']),
      path_exists = (\<lambda>p. True)\<rparr>"

definition no_pairs_folder :: filesystem where
  "no_pairs_folder =
     \<lparr>listdir = (\<lambda>p. Some [''notes.txt'', ''9_original.jpeg'']), path_exists = (\<lambda>p. True)\<rparr>"

section \<open>Properties of the labels\<close>



section \<open>Properties of the similarity engine\<close>

lemma opencv_shapes_sel:
  "Image_open (opencv_shapes base) = Some"
  "np_array (opencv_shapes base) = Some"
  "shape (opencv_shapes base) = (\<lambda>s. s)"
  "cvtColor (opencv_shapes base) = cvtColor_shape"
  "resize (opencv_shapes base) = resize_shape"
  by (simp_all add: opencv_shapes_def)

lemma compare_body_grayscale:
  "compare_body (opencv_shapes base) (PIL [h, w]) (PIL [h, w]) = None"
  by (simp add: compare_body_def opencv_shapes_sel to_array_def to_bgr_def
      shape_at_def resize_shape_def cvtColor_shape_def)




lemma sorted_common_code:
  "sorted_list_of_set (common_files rf ff) =
     sort (remdups (filter (\<lambda>k. k \<in> dict_keys ff) (map (\<lambda>f. basename (name f)) rf)))"
proof -
  have "common_files rf ff = set (filter (\<lambda>k. k \<in> dict_keys ff) (map (\<lambda>f. basename (name f)) rf))"
    by (auto simp: common_files_def dict_keys_def)
  then show ?thesis by (simp only: sorted_list_of_set_sort_remdups)
qed











text \<open>
  Claim C1 says that \<^verbatim>\<open>compare_images\<close> does not fail on any pair of decodable images,
  single-channel grayscale inputs included, and returns both images at the minimum width
  and height. On two grayscale images of 480 by 640 pixels the grayscale conversion
  \<^verbatim>\<open>cv2.cvtColor(image1, cv2.COLOR_BGR2GRAY)\<close> receives an array with one channel and
  raises, and the \<^verbatim>\<open>except\<close> clause returns four times \<^verbatim>\<open>None\<close>: no score and no
  output image. The guard before the first conversion (three dimensions and three
  channels) has no counterpart at this one.
\<close>

theorem grayscale_pair_fails:
  "compare_images (opencv_shapes base) (PIL [480, 640]) (PIL [480, 640]) =
     (None, None, None, None)"
  by (simp add: compare_images_def compare_body_grayscale)

section \<open>Properties of the batch comparison\<close>



text \<open>
  Claim C8 says that a failed comparison yields no partial result and that in batch mode
  failed comparisons are skipped without aborting the run. When the only common file is
  a pair of grayscale images, its comparison fails and is skipped, \<^verbatim>\<open>results\<close> stays
  empty, and the summary divides by \<^verbatim>\<open>total = 0\<close>: the run ends in ZeroDivisionError.
\<close>

theorem batch_of_failures_divides_by_zero:
  "batch_comparison (opencv_shapes base)
     [\<lparr>name = ''house1.jpg'', content = [480, 640]\<rparr>]
     [\<lparr>name = ''house1.jpg'', content = [480, 640]\<rparr>] = Inl ZeroDivisionError"
  by (simp add: batch_comparison_def sorted_common_code dict_keys_def basename_def common_files_def
     file_dict_def compare_file_def compare_images_def compare_body_grayscale
     summary_statistics_def opencv_shapes_sel)



section \<open>Properties of the verification session\<close>


lemma script_pass_no_button_no_rerun: "button inp = None \<Longrightarrow> snd (script_pass inp st) = False"
  by (simp add: script_pass_def Let_def)




lemma main_run_same_folder_complete:
  assumes "verification_complete st" and "current_pair st = length (image_pairs st)"
    and "text_input inp = [] \<or> Some (text_input inp) = folder_path st"
  shows "current_pair (main_run inp st) = current_pair st \<and>
         decisions (main_run inp st) = decisions st"
  using assms by (auto simp: main_run_def script_pass_def Let_def)


lemma main_run_click:
  assumes "path \<noteq> []" and "path_exists fs path" and "folder_path st = Some path"
    and "current_pair st < length (image_pairs st)"
  shows "main_run (click fs path dt) st =
           st\<lparr>decisions := decisions st @ [logged (image_pairs st ! current_pair st) dt],
              current_pair := current_pair st + 1,
              verification_complete :=
                (verification_complete st \<or> current_pair st + 1 = length (image_pairs st))\<rparr>"
  using assms
  by (cases st) (auto simp: main_run_def script_pass_def Let_def click_def logged_def)

lemma clicks_run:
  assumes "path \<noteq> []" and "path_exists fs path"
  shows "folder_path st = Some path \<Longrightarrow>
         current_pair st + length ds \<le> length (image_pairs st) \<Longrightarrow>
         foldl (\<lambda>s inp. main_run inp s) st (map (click fs path) ds) =
           st\<lparr>decisions := decisions st @ map2 logged (drop (current_pair st) (image_pairs st)) ds,
              current_pair := current_pair st + length ds,
              verification_complete :=
                (verification_complete st \<or>
                 (ds \<noteq> [] \<and> current_pair st + length ds = length (image_pairs st)))\<rparr>"
proof (induction ds arbitrary: st)
  case Nil
  then show ?case by simp
next
  case (Cons dt ds)
  let ?st1 = "main_run (click fs path dt) st"
  from Cons.prems have lt: "current_pair st < length (image_pairs st)" by simp
  note step = main_run_click [OF assms Cons.prems(1) lt, of dt]
  have f1: "folder_path ?st1 = Some path" using step Cons.prems(1) by simp
  have c1: "current_pair ?st1 + length ds \<le> length (image_pairs ?st1)"
    using step Cons.prems(2) by simp
  have dr: "drop (current_pair st) (image_pairs st) =
      image_pairs st ! current_pair st # drop (Suc (current_pair st)) (image_pairs st)"
    using lt by (simp add: Cons_nth_drop_Suc)
  have "foldl (\<lambda>s inp. main_run inp s) st (map (click fs path) (dt # ds)) =
        foldl (\<lambda>s inp. main_run inp s) ?st1 (map (click fs path) ds)" by simp
  also note Cons.IH [OF f1 c1]
  finally have run: "foldl (\<lambda>s inp. main_run inp s) st (map (click fs path) (dt # ds)) =
      ?st1\<lparr>decisions := decisions ?st1 @
                 map2 logged (drop (current_pair ?st1) (image_pairs ?st1)) ds,
              current_pair := current_pair ?st1 + length ds,
              verification_complete :=
                (verification_complete ?st1 \<or>
                 (ds \<noteq> [] \<and> current_pair ?st1 + length ds = length (image_pairs ?st1)))\<rparr>" .
  have flag: "(verification_complete st \<or> current_pair st + 1 = length (image_pairs st) \<or>
      (ds \<noteq> [] \<and> current_pair st + 1 + length ds = length (image_pairs st))) =
      (verification_complete st \<or> current_pair st + length (dt # ds) = length (image_pairs st))"
    using Cons.prems(2) by (cases ds) auto
  show ?case
    unfolding run by (simp add: step dr flag [simplified])
qed

lemma open_folder_run:
  assumes "path \<noteq> []" and "path_exists fs path" and "get_image_pairs fs path \<noteq> []"
  shows "main_run (open_folder fs path t0) initial_session =
           \<lparr>current_pair = 0, decisions = [], image_pairs = get_image_pairs fs path,
            verification_complete = False, folder_path = Some path\<rparr>"
  using assms
  by (simp add: main_run_def script_pass_def Let_def open_folder_def initial_session_def)

lemma review_run:
  assumes "path \<noteq> []" and "path_exists fs path" and "get_image_pairs fs path \<noteq> []"
    and "length ds = length (get_image_pairs fs path)"
  shows "session_after (review fs path t0 ds) =
           \<lparr>current_pair = length ds, decisions = map2 logged (get_image_pairs fs path) ds,
            image_pairs = get_image_pairs fs path, verification_complete = True,
            folder_path = Some path\<rparr>"
proof -
  let ?st0 = "main_run (open_folder fs path t0) initial_session"
  have st0: "?st0 = \<lparr>current_pair = 0, decisions = [], image_pairs = get_image_pairs fs path,
            verification_complete = False, folder_path = Some path\<rparr>"
    by (rule open_folder_run [OF assms(1-3)])
  have ne: "ds \<noteq> []" using assms(3,4) by auto
  have "session_after (review fs path t0 ds) =
        foldl (\<lambda>s inp. main_run inp s) ?st0 (map (click fs path) ds)"
    by (simp add: session_after_def review_def)
  also have "\<dots> = ?st0\<lparr>decisions := decisions ?st0 @
                 map2 logged (drop (current_pair ?st0) (image_pairs ?st0)) ds,
              current_pair := current_pair ?st0 + length ds,
              verification_complete :=
                (verification_complete ?st0 \<or>
                 (ds \<noteq> [] \<and> current_pair ?st0 + length ds = length (image_pairs ?st0)))\<rparr>"
    by (rule clicks_run [OF assms(1,2)]) (simp_all add: st0 assms(4))
  finally show ?thesis using ne assms(4) by (simp add: st0)
qed




lemma classify_examples:
  "classify ''12_original.jpg'' = Some (Original, ''12'')"
  "classify ''7_proof.PNG'' = Some (Proof, ''7'')"
  "classify ''12_proof.jpg'' = Some (Proof, ''12'')"
  "classify ''notes.txt'' = None"
  "classify ''7_original.png'' = Some (Original, ''7'')"
  "classify ''9_original.jpeg'' = Some (Original, ''9'')"
  by (simp_all add: classify_def is_image_name_def lower_def lower_char_def endswith_def
      contains_def split_head_def startswith_def)

lemma two_pairs_listing:
  "get_image_pairs two_pairs_folder ''photos'' =
     [\<lparr>pair_id = ''12'', original_path = ''photos/12_original.jpg'',
       proof_path = ''photos/12_proof.jpg''\<rparr>,
      \<lparr>pair_id = ''7'', original_path = ''photos/7_original.png'',
       proof_path = ''photos/7_proof.PNG''\<rparr>]"
  by (simp add: get_image_pairs_def two_pairs_folder_def add_file_def classify_examples
      setdefault_update_def path_join_def startswith_def endswith_def)

lemma no_pairs_listing: "get_image_pairs no_pairs_folder ''photos'' = []"
  by (simp add: get_image_pairs_def no_pairs_folder_def add_file_def classify_examples
      setdefault_update_def)

lemma two_pairs_opened:
  "session_after [open_folder two_pairs_folder ''photos'' ''09:00''] =
     \<lparr>current_pair = 0, decisions = [], image_pairs = get_image_pairs two_pairs_folder ''photos'',
      verification_complete = False, folder_path = Some ''photos''\<rparr>"
proof -
  have "session_after [open_folder two_pairs_folder ''photos'' ''09:00''] =
      main_run (open_folder two_pairs_folder ''photos'' ''09:00'') initial_session"
    by (simp add: session_after_def)
  also have "\<dots> = \<lparr>current_pair = 0, decisions = [],
      image_pairs = get_image_pairs two_pairs_folder ''photos'',
      verification_complete = False, folder_path = Some ''photos''\<rparr>"
    by (rule open_folder_run) (simp_all add: two_pairs_listing, simp add: two_pairs_folder_def)
  finally show ?thesis .
qed


text \<open>
  Claim C6. In the verification session, a click on any of the three decision buttons
  appends exactly one record to the decision log and advances the cursor by one,
  whatever the decision is; and after one decision for every pair of a folder with
  \<open>N\<close> pairs the session is complete, the cursor is \<open>N\<close>, the log has length \<open>N\<close> and
  its \<open>i\<close>-th record is the decision clicked for the \<open>i\<close>-th pair. The folder holds at
  least one pair: with no pair the script stops at ``No valid image pairs found'' and
  never sets the completion flag, as the run on \<open>no_pairs_folder\<close> below shows.
\<close>

theorem recording_decisions:
  assumes "path \<noteq> []" and "path_exists fs path" and "get_image_pairs fs path \<noteq> []"
  shows "(folder_path st = Some path \<and> current_pair st < length (image_pairs st) \<longrightarrow>
            decisions (main_run (click fs path dt) st) =
              decisions st @ [logged (image_pairs st ! current_pair st) dt] \<and>
            current_pair (main_run (click fs path dt) st) = current_pair st + 1) \<and>
         (length ds = length (get_image_pairs fs path) \<longrightarrow>
            verification_complete (session_after (review fs path t0 ds)) \<and>
            current_pair (session_after (review fs path t0 ds)) = length (get_image_pairs fs path) \<and>
            length (decisions (session_after (review fs path t0 ds))) =
              length (get_image_pairs fs path) \<and>
            decisions (session_after (review fs path t0 ds)) =
              map2 logged (get_image_pairs fs path) ds)"
proof (intro conjI impI)
  assume st: "folder_path st = Some path \<and> current_pair st < length (image_pairs st)"
  then have step: "main_run (click fs path dt) st =
      st\<lparr>decisions := decisions st @ [logged (image_pairs st ! current_pair st) dt],
         current_pair := current_pair st + 1,
         verification_complete :=
           (verification_complete st \<or> current_pair st + 1 = length (image_pairs st))\<rparr>"
    by (intro main_run_click assms(1,2)) simp_all
  show "decisions (main_run (click fs path dt) st) =
      decisions st @ [logged (image_pairs st ! current_pair st) dt]"
    by (simp add: step)
  show "current_pair (main_run (click fs path dt) st) = current_pair st + 1"
    by (simp add: step)
next
  assume len: "length ds = length (get_image_pairs fs path)"
  note run = review_run [OF assms len, of t0]
  show "verification_complete (session_after (review fs path t0 ds))" by (simp add: run)
  show "current_pair (session_after (review fs path t0 ds)) = length (get_image_pairs fs path)"
    by (simp add: run len)
  show "length (decisions (session_after (review fs path t0 ds))) =
      length (get_image_pairs fs path)"
    by (simp add: run len)
  show "decisions (session_after (review fs path t0 ds)) = map2 logged (get_image_pairs fs path) ds"
    by (simp add: run)
qed

theorem recording_decisions_witness:
  "current_pair (main_run (click two_pairs_folder ''photos'' (No, ''09:01''))
      (session_after [open_folder two_pairs_folder ''photos'' ''09:00''])) = 1 \<and>
   decisions (main_run (click two_pairs_folder ''photos'' (No, ''09:01''))
      (session_after [open_folder two_pairs_folder ''photos'' ''09:00''])) =
     [\<lparr>property_id = ''12'', decision_made = No, timestamp = ''09:01''\<rparr>] \<and>
   verification_complete (session_after
      (review two_pairs_folder ''photos'' ''09:00'' [(Yes, ''09:01''), (No_Decision, ''09:02'')])) \<and>
   decisions (session_after
      (review two_pairs_folder ''photos'' ''09:00'' [(Yes, ''09:01''), (No_Decision, ''09:02'')])) =
     [\<lparr>property_id = ''12'', decision_made = Yes, timestamp = ''09:01''\<rparr>,
      \<lparr>property_id = ''7'', decision_made = No_Decision, timestamp = ''09:02''\<rparr>]"
proof -
  let ?st = "session_after [open_folder two_pairs_folder ''photos'' ''09:00'']"
  let ?ds = "[(Yes, ''09:01''), (No_Decision, ''09:02'')]"
  have h1: "''photos'' \<noteq> []" by simp
  have h2: "path_exists two_pairs_folder ''photos''" by (simp add: two_pairs_folder_def)
  have h3: "get_image_pairs two_pairs_folder ''photos'' \<noteq> []" by (simp add: two_pairs_listing)
  have h4: "folder_path ?st = Some ''photos'' \<and> current_pair ?st < length (image_pairs ?st)"
    by (simp add: two_pairs_opened two_pairs_listing)
  have h5: "length ?ds = length (get_image_pairs two_pairs_folder ''photos'')"
    by (simp add: two_pairs_listing)
  from recording_decisions [OF h1 h2 h3, of ?st "(No, ''09:01'')" ?ds "''09:00''"] h4 h5
  show ?thesis
    by (simp add: two_pairs_opened two_pairs_listing logged_def)
qed

theorem recording_decisions_counterexample:
  "length ([] :: (decision \<times> string) list) = length (get_image_pairs no_pairs_folder ''photos'') \<and>
   \<not> verification_complete (session_after (review no_pairs_folder ''photos'' ''09:00'' []))"
  by (simp add: no_pairs_listing review_def session_after_def main_run_def script_pass_def
      Let_def open_folder_def initial_session_def)




section \<open>Properties of the pairing of files\<close>

lemma startswith_iff: "startswith s pre \<longleftrightarrow> (\<exists>r. s = pre @ r)"
proof
  assume "startswith s pre"
  then have "s = pre @ drop (length pre) s"
    unfolding startswith_def by (metis append_take_drop_id)
  then show "\<exists>r. s = pre @ r" ..
next
  assume "\<exists>r. s = pre @ r"
  then show "startswith s pre" by (auto simp: startswith_def)
qed

lemma endswith_iff: "endswith s suf \<longleftrightarrow> (\<exists>stem. s = stem @ suf)"
proof
  assume "endswith s suf"
  then have "s = take (length s - length suf) s @ suf"
    unfolding endswith_def by (metis append_take_drop_id)
  then show "\<exists>stem. s = stem @ suf" ..
next
  assume "\<exists>stem. s = stem @ suf"
  then show "endswith s suf" by (auto simp: endswith_def)
qed

lemma before_first_occurs: "before_first sep s = Some p \<Longrightarrow> \<exists>r. s = p @ sep @ r"
proof (induction s arbitrary: p)
  case Nil
  then show ?case by (simp split: if_splits)
next
  case (Cons c cs)
  show ?case
  proof (cases "startswith (c # cs) sep")
    case True
    with Cons.prems have "p = []" by simp
    with True show ?thesis by (simp add: startswith_iff)
  next
    case False
    with Cons.prems obtain q where q: "before_first sep cs = Some q" and p: "p = c # q"
      by auto
    from Cons.IH [OF q] obtain r where "cs = q @ sep @ r" ..
    with p show ?thesis by simp
  qed
qed

lemma before_first_least:
  "before_first sep s = Some p \<Longrightarrow> s = p' @ sep @ r' \<Longrightarrow> length p \<le> length p'"
proof (induction s arbitrary: p p')
  case Nil
  then show ?case by (simp split: if_splits)
next
  case (Cons c cs)
  show ?case
  proof (cases "startswith (c # cs) sep")
    case True
    with Cons.prems(1) have "p = []" by simp
    then show ?thesis by simp
  next
    case False
    with Cons.prems(1) obtain q where q: "before_first sep cs = Some q" and p: "p = c # q"
      by auto
    from False Cons.prems(2) have "p' \<noteq> []" by (auto simp: startswith_iff)
    then obtain c' q' where p': "p' = c' # q'" by (cases p') auto
    with Cons.prems(2) have "cs = q' @ sep @ r'" by simp
    from Cons.IH [OF q this] p p' show ?thesis by simp
  qed
qed

lemma before_first_finds: "s = p' @ sep @ r' \<Longrightarrow> before_first sep s \<noteq> None"
proof (induction s arbitrary: p')
  case Nil
  then show ?case by simp
next
  case (Cons c cs)
  show ?case
  proof (cases "startswith (c # cs) sep")
    case True
    then show ?thesis by simp
  next
    case False
    with Cons.prems have "p' \<noteq> []" by (auto simp: startswith_iff)
    then obtain c' q' where p': "p' = c' # q'" by (cases p') auto
    with Cons.prems have "cs = q' @ sep @ r'" by simp
    from Cons.IH [OF this] False show ?thesis by simp
  qed
qed

lemma before_first_iff:
  "before_first sep s = Some p \<longleftrightarrow>
     (\<exists>r. s = p @ sep @ r) \<and> (\<forall>p' r'. s = p' @ sep @ r' \<longrightarrow> length p \<le> length p')"
proof
  assume "before_first sep s = Some p"
  then show "(\<exists>r. s = p @ sep @ r) \<and> (\<forall>p' r'. s = p' @ sep @ r' \<longrightarrow> length p \<le> length p')"
    using before_first_occurs before_first_least by blast
next
  assume r: "(\<exists>r. s = p @ sep @ r) \<and> (\<forall>p' r'. s = p' @ sep @ r' \<longrightarrow> length p \<le> length p')"
  then obtain r where s: "s = p @ sep @ r" by blast
  then obtain q where q: "before_first sep s = Some q"
    using before_first_finds [of s p sep r] by auto
  from before_first_occurs [OF q] obtain r2 where s2: "s = q @ sep @ r2" ..
  have "length q \<le> length p" by (rule before_first_least [OF q s])
  moreover have "length p \<le> length q" using r s2 by blast
  ultimately have "length p = length q" by simp
  with s s2 have "p = q" by (metis append_eq_append_conv)
  with q show "before_first sep s = Some p" by simp
qed

lemma contains_iff: "contains s sep \<longleftrightarrow> (\<exists>p r. s = p @ sep @ r)"
proof
  assume "contains s sep"
  then obtain p where "before_first sep s = Some p" by (auto simp: contains_def)
  from before_first_occurs [OF this] show "\<exists>p r. s = p @ sep @ r" by blast
next
  assume "\<exists>p r. s = p @ sep @ r"
  then show "contains s sep" using before_first_finds by (auto simp: contains_def)
qed

lemma classify_Original:
  "classify file = Some (Original, base) \<longleftrightarrow>
     is_image_name file \<and> before_first ''_original'' file = Some base"
  by (auto simp: classify_def contains_def split_head_def)

lemma classify_Proof:
  "classify file = Some (Proof, base) \<longleftrightarrow>
     is_image_name file \<and> before_first ''_original'' file = None \<and>
     before_first ''_proof'' file = Some base"
  by (auto simp: classify_def contains_def split_head_def)

lemma classify_None:
  "classify file = None \<longleftrightarrow>
     \<not> is_image_name file \<or> (\<not> contains file ''_original'' \<and> \<not> contains file ''_proof'')"
  by (auto simp: classify_def)

lemma setdefault_update_keys:
  "map fst (setdefault_update d k f) = (if k \<in> fst ` set d then map fst d else map fst d @ [k])"
  by (induction d) (auto simp: setdefault_update_def)

lemma setdefault_update_distinct:
  "distinct (map fst d) \<Longrightarrow> distinct (map fst (setdefault_update d k f))"
  by (auto simp: setdefault_update_keys)

lemma map_entry_mem:
  "(k', e') \<in> set (map (\<lambda>(a, e). (a, h a e)) d) \<longleftrightarrow> (\<exists>e. (k', e) \<in> set d \<and> e' = h k' e)"
  by (induction d) auto

lemma setdefault_update_mem:
  "(k', e') \<in> set (setdefault_update d k f) \<longleftrightarrow>
     (k' \<noteq> k \<and> (k', e') \<in> set d) \<or>
     (k' = k \<and> (\<exists>e. (k, e) \<in> set d \<and> e' = f e)) \<or>
     (k' = k \<and> k \<notin> fst ` set d \<and> e' = f \<lparr>original_file = None, proof_file = None\<rparr>)"
proof (cases "k \<in> fst ` set d")
  case True
  then have "setdefault_update d k f = map (\<lambda>(a, e). (a, if a = k then f e else e)) d"
    by (simp add: setdefault_update_def)
  then have "(k', e') \<in> set (setdefault_update d k f) \<longleftrightarrow>
      (\<exists>e. (k', e) \<in> set d \<and> e' = (if k' = k then f e else e))"
    by (simp only: map_entry_mem)
  with True show ?thesis by auto
next
  case False
  then have "setdefault_update d k f = d @ [(k, f \<lparr>original_file = None, proof_file = None\<rparr>)]"
    by (simp add: setdefault_update_def)
  moreover from False have "\<And>e. (k, e) \<notin> set d" by force
  ultimately show ?thesis using False by auto
qed

lemma add_file_distinct: "distinct (map fst d) \<Longrightarrow> distinct (map fst (add_file d file))"
  by (auto simp: add_file_def setdefault_update_distinct split: option.splits role.splits)

lemma foldl_add_file_distinct:
  "distinct (map fst d) \<Longrightarrow> distinct (map fst (foldl add_file d names))"
  by (induction names arbitrary: d) (simp_all add: add_file_distinct)

lemma add_file_sound:
  assumes "\<forall>k e. (k, e) \<in> set d \<longrightarrow>
      (\<forall>orig. original_file e = Some orig \<longrightarrow> orig \<in> S \<and> classify orig = Some (Original, k)) \<and>
      (\<forall>pf. proof_file e = Some pf \<longrightarrow> pf \<in> S \<and> classify pf = Some (Proof, k))"
  shows "\<forall>k e. (k, e) \<in> set (add_file d file) \<longrightarrow>
      (\<forall>orig. original_file e = Some orig \<longrightarrow>
         orig \<in> insert file S \<and> classify orig = Some (Original, k)) \<and>
      (\<forall>pf. proof_file e = Some pf \<longrightarrow>
         pf \<in> insert file S \<and> classify pf = Some (Proof, k))"
proof (cases "classify file")
  case None
  with assms show ?thesis by (simp add: add_file_def)
next
  case (Some rb)
  obtain r b where rb: "rb = (r, b)" by (cases rb)
  show ?thesis
  proof (cases r)
    case Original
    with Some rb have af: "add_file d file =
        setdefault_update d b (\<lambda>e. e\<lparr>original_file := Some file\<rparr>)"
      by (simp add: add_file_def)
    from Some rb Original have cl: "classify file = Some (Original, b)" by simp
    show ?thesis unfolding af setdefault_update_mem using assms cl by auto
  next
    case Proof
    with Some rb have af: "add_file d file =
        setdefault_update d b (\<lambda>e. e\<lparr>proof_file := Some file\<rparr>)"
      by (simp add: add_file_def)
    from Some rb Proof have cl: "classify file = Some (Proof, b)" by simp
    show ?thesis unfolding af setdefault_update_mem using assms cl by auto
  qed
qed

lemma foldl_add_file_sound:
  "\<forall>k e. (k, e) \<in> set d \<longrightarrow>
      (\<forall>orig. original_file e = Some orig \<longrightarrow> orig \<in> S \<and> classify orig = Some (Original, k)) \<and>
      (\<forall>pf. proof_file e = Some pf \<longrightarrow> pf \<in> S \<and> classify pf = Some (Proof, k)) \<Longrightarrow>
   \<forall>k e. (k, e) \<in> set (foldl add_file d names) \<longrightarrow>
      (\<forall>orig. original_file e = Some orig \<longrightarrow>
         orig \<in> S \<union> set names \<and> classify orig = Some (Original, k)) \<and>
      (\<forall>pf. proof_file e = Some pf \<longrightarrow>
         pf \<in> S \<union> set names \<and> classify pf = Some (Proof, k))"
proof (induction names arbitrary: d S)
  case Nil
  then show ?case by simp
next
  case (Cons nm names)
  from Cons.IH [OF add_file_sound [OF Cons.prems, of nm]]
  show ?case by simp
qed

lemma valid_pairs_mem:
  "p \<in> set (valid_pairs folder d) \<longleftrightarrow>
     (\<exists>k e orig pf. (k, e) \<in> set d \<and> original_file e = Some orig \<and> proof_file e = Some pf \<and>
        p = \<lparr>pair_id = k, original_path = path_join folder orig,
             proof_path = path_join folder pf\<rparr>)"
proof (induction d)
  case Nil
  show ?case by simp
next
  case (Cons ke d)
  obtain b e where ke: "ke = (b, e)" by (cases ke)
  show ?case
  proof (cases "original_file e")
    case None
    then have "valid_pairs folder (ke # d) = valid_pairs folder d" by (simp add: ke)
    with None show ?thesis unfolding ke using Cons.IH by auto
  next
    case (Some orig)
    note so = Some
    show ?thesis
    proof (cases "proof_file e")
      case None
      with so have "valid_pairs folder (ke # d) = valid_pairs folder d" by (simp add: ke)
      with None show ?thesis unfolding ke using Cons.IH by auto
    next
      case (Some pf)
      with so have "valid_pairs folder (ke # d) =
          \<lparr>pair_id = b, original_path = path_join folder orig,
             proof_path = path_join folder pf\<rparr> # valid_pairs folder d"
        by (simp add: ke)
      with so Some show ?thesis unfolding ke using Cons.IH by auto
    qed
  qed
qed

lemma valid_pairs_ids: "pair_id ` set (valid_pairs folder d) \<subseteq> fst ` set d"
proof
  fix b assume "b \<in> pair_id ` set (valid_pairs folder d)"
  then obtain p where p: "p \<in> set (valid_pairs folder d)" and b: "b = pair_id p" by blast
  from p obtain k e where ke: "(k, e) \<in> set d" and "pair_id p = k"
    unfolding valid_pairs_mem by auto
  with b have "b = fst (k, e)" by simp
  with ke show "b \<in> fst ` set d" by blast
qed

lemma valid_pairs_distinct:
  "distinct (map fst d) \<Longrightarrow> distinct (map pair_id (valid_pairs folder d))"
proof (induction d)
  case Nil
  show ?case by simp
next
  case (Cons ke d)
  obtain base_id e where ke: "ke = (base_id, e)" by (cases ke)
  from Cons ke have d: "distinct (map pair_id (valid_pairs folder d))" and
    n: "base_id \<notin> fst ` set d" by auto
  from n valid_pairs_ids [of folder d]
  have "base_id \<notin> pair_id ` set (valid_pairs folder d)" by blast
  with d show ?case unfolding ke by (cases "original_file e"; cases "proof_file e") auto
qed

lemma add_file_ignores: "classify file = None \<Longrightarrow> add_file d file = d"
  by (simp add: add_file_def)

lemma foldl_add_file_filter:
  "foldl add_file d (filter (\<lambda>f. classify f \<noteq> None) names) = foldl add_file d names"
proof (induction names arbitrary: d)
  case Nil
  show ?case by simp
next
  case (Cons nm names)
  show ?case
  proof (cases "classify nm")
    case None
    then have "filter (\<lambda>f. classify f \<noteq> None) (nm # names) =
        filter (\<lambda>f. classify f \<noteq> None) names"
      by (simp only: filter.simps simp_thms if_False)
    moreover from None have "add_file d nm = d" by (rule add_file_ignores)
    ultimately show ?thesis by (simp only: foldl.simps Cons.IH)
  next
    case (Some rb)
    then have "filter (\<lambda>f. classify f \<noteq> None) (nm # names) =
        nm # filter (\<lambda>f. classify f \<noteq> None) names"
      by (simp only: filter.simps simp_thms option.simps if_True)
    then show ?thesis by (simp only: foldl.simps Cons.IH)
  qed
qed

lemma add_file_keeps:
  assumes "(k, e) \<in> set d"
  shows "\<exists>e'. (k, e') \<in> set (add_file d nm) \<and>
           (original_file e \<noteq> None \<longrightarrow> original_file e' \<noteq> None) \<and>
           (proof_file e \<noteq> None \<longrightarrow> proof_file e' \<noteq> None)"
proof (cases "classify nm")
  case None
  with assms show ?thesis by (auto simp: add_file_def)
next
  case (Some rb)
  obtain r b where rb: "rb = (r, b)" by (cases rb)
  show ?thesis
  proof (cases r)
    case Original
    with Some rb have af: "add_file d nm =
        setdefault_update d b (\<lambda>e. e\<lparr>original_file := Some nm\<rparr>)"
      by (simp add: add_file_def)
    show ?thesis
    proof (cases "k = b")
      case True
      with assms have "(k, e\<lparr>original_file := Some nm\<rparr>) \<in> set (add_file d nm)"
        unfolding af setdefault_update_mem by blast
      then show ?thesis by (intro exI [of _ "e\<lparr>original_file := Some nm\<rparr>"]) simp
    next
      case False
      with assms have "(k, e) \<in> set (add_file d nm)"
        unfolding af setdefault_update_mem by blast
      then show ?thesis by (intro exI [of _ e]) simp
    qed
  next
    case Proof
    with Some rb have af: "add_file d nm =
        setdefault_update d b (\<lambda>e. e\<lparr>proof_file := Some nm\<rparr>)"
      by (simp add: add_file_def)
    show ?thesis
    proof (cases "k = b")
      case True
      with assms have "(k, e\<lparr>proof_file := Some nm\<rparr>) \<in> set (add_file d nm)"
        unfolding af setdefault_update_mem by blast
      then show ?thesis by (intro exI [of _ "e\<lparr>proof_file := Some nm\<rparr>"]) simp
    next
      case False
      with assms have "(k, e) \<in> set (add_file d nm)"
        unfolding af setdefault_update_mem by blast
      then show ?thesis by (intro exI [of _ e]) simp
    qed
  qed
qed

lemma foldl_add_file_keeps:
  "(k, e) \<in> set d \<Longrightarrow>
   \<exists>e'. (k, e') \<in> set (foldl add_file d names) \<and>
      (original_file e \<noteq> None \<longrightarrow> original_file e' \<noteq> None) \<and>
      (proof_file e \<noteq> None \<longrightarrow> proof_file e' \<noteq> None)"
proof (induction names arbitrary: d e)
  case Nil
  then show ?case by auto
next
  case (Cons nm names)
  from add_file_keeps [OF Cons.prems, of nm] obtain e1 where
    e1: "(k, e1) \<in> set (add_file d nm)"
      "original_file e \<noteq> None \<longrightarrow> original_file e1 \<noteq> None"
      "proof_file e \<noteq> None \<longrightarrow> proof_file e1 \<noteq> None" by blast
  from Cons.IH [OF e1(1)] obtain e2 where
    e2: "(k, e2) \<in> set (foldl add_file (add_file d nm) names)"
      "original_file e1 \<noteq> None \<longrightarrow> original_file e2 \<noteq> None"
      "proof_file e1 \<noteq> None \<longrightarrow> proof_file e2 \<noteq> None" by blast
  from e1 e2 show ?case by (intro exI [of _ e2]) simp
qed

lemma add_file_records_original:
  assumes "classify nm = Some (Original, k)"
  shows "\<exists>e. (k, e) \<in> set (add_file d nm) \<and> original_file e \<noteq> None"
proof -
  from assms have af: "add_file d nm =
      setdefault_update d k (\<lambda>e. e\<lparr>original_file := Some nm\<rparr>)"
    by (simp add: add_file_def)
  show ?thesis
  proof (cases "k \<in> fst ` set d")
    case True
    then obtain e where "(k, e) \<in> set d" by force
    then have "(k, e\<lparr>original_file := Some nm\<rparr>) \<in> set (add_file d nm)"
      unfolding af setdefault_update_mem by blast
    then show ?thesis by (intro exI [of _ "e\<lparr>original_file := Some nm\<rparr>"]) simp
  next
    case False
    then have "(k, \<lparr>original_file = None, proof_file = None\<rparr>\<lparr>original_file := Some nm\<rparr>)
        \<in> set (add_file d nm)"
      unfolding af setdefault_update_mem by blast
    then show ?thesis
      by (intro exI [of _ "\<lparr>original_file = None, proof_file = None\<rparr>\<lparr>original_file := Some nm\<rparr>"])
        simp
  qed
qed

lemma add_file_records_proof:
  assumes "classify nm = Some (Proof, k)"
  shows "\<exists>e. (k, e) \<in> set (add_file d nm) \<and> proof_file e \<noteq> None"
proof -
  from assms have af: "add_file d nm =
      setdefault_update d k (\<lambda>e. e\<lparr>proof_file := Some nm\<rparr>)"
    by (simp add: add_file_def)
  show ?thesis
  proof (cases "k \<in> fst ` set d")
    case True
    then obtain e where "(k, e) \<in> set d" by force
    then have "(k, e\<lparr>proof_file := Some nm\<rparr>) \<in> set (add_file d nm)"
      unfolding af setdefault_update_mem by blast
    then show ?thesis by (intro exI [of _ "e\<lparr>proof_file := Some nm\<rparr>"]) simp
  next
    case False
    then have "(k, \<lparr>original_file = None, proof_file = None\<rparr>\<lparr>proof_file := Some nm\<rparr>)
        \<in> set (add_file d nm)"
      unfolding af setdefault_update_mem by blast
    then show ?thesis
      by (intro exI [of _ "\<lparr>original_file = None, proof_file = None\<rparr>\<lparr>proof_file := Some nm\<rparr>"])
        simp
  qed
qed

lemma foldl_add_file_records_original:
  "nm \<in> set names \<Longrightarrow> classify nm = Some (Original, k) \<Longrightarrow>
   \<exists>e. (k, e) \<in> set (foldl add_file d names) \<and> original_file e \<noteq> None"
proof (induction names arbitrary: d)
  case Nil
  then show ?case by simp
next
  case (Cons x names)
  show ?case
  proof (cases "nm \<in> set names")
    case True
    from Cons.IH [OF True Cons.prems(2)] show ?thesis by simp
  next
    case False
    with Cons.prems(1) have "nm = x" by simp
    with add_file_records_original [OF Cons.prems(2), of d] obtain e where
      e: "(k, e) \<in> set (add_file d x)" "original_file e \<noteq> None" by blast
    from foldl_add_file_keeps [OF e(1), of names] e(2) show ?thesis by auto
  qed
qed

lemma foldl_add_file_records_proof:
  "nm \<in> set names \<Longrightarrow> classify nm = Some (Proof, k) \<Longrightarrow>
   \<exists>e. (k, e) \<in> set (foldl add_file d names) \<and> proof_file e \<noteq> None"
proof (induction names arbitrary: d)
  case Nil
  then show ?case by simp
next
  case (Cons x names)
  show ?case
  proof (cases "nm \<in> set names")
    case True
    from Cons.IH [OF True Cons.prems(2)] show ?thesis by simp
  next
    case False
    with Cons.prems(1) have "nm = x" by simp
    with add_file_records_proof [OF Cons.prems(2), of d] obtain e where
      e: "(k, e) \<in> set (add_file d x)" "proof_file e \<noteq> None" by blast
    from foldl_add_file_keeps [OF e(1), of names] e(2) show ?thesis by auto
  qed
qed

lemma paired_ids_sound:
  assumes "p \<in> set (valid_pairs folder (foldl add_file [] names))"
  shows "\<exists>orig \<in> set names. \<exists>pf \<in> set names.
           classify orig = Some (Original, pair_id p) \<and> classify pf = Some (Proof, pair_id p) \<and>
           original_path p = path_join folder orig \<and> proof_path p = path_join folder pf"
proof -
  from assms obtain k e orig pf where
    ke: "(k, e) \<in> set (foldl add_file [] names)" and
    o: "original_file e = Some orig" and q: "proof_file e = Some pf" and
    p: "p = \<lparr>pair_id = k, original_path = path_join folder orig,
             proof_path = path_join folder pf\<rparr>"
    unfolding valid_pairs_mem by blast
  have "\<forall>k e. (k, e) \<in> set (foldl add_file [] names) \<longrightarrow>
      (\<forall>orig. original_file e = Some orig \<longrightarrow>
         orig \<in> {} \<union> set names \<and> classify orig = Some (Original, k)) \<and>
      (\<forall>pf. proof_file e = Some pf \<longrightarrow>
         pf \<in> {} \<union> set names \<and> classify pf = Some (Proof, k))"
    by (rule foldl_add_file_sound) simp
  with ke o q have "orig \<in> set names" "classify orig = Some (Original, k)"
    "pf \<in> set names" "classify pf = Some (Proof, k)" by auto
  with p show ?thesis by auto
qed

lemma paired_ids_complete:
  assumes "orig \<in> set names" and "classify orig = Some (Original, b)"
    and "pf \<in> set names" and "classify pf = Some (Proof, b)"
  shows "b \<in> pair_id ` set (valid_pairs folder (foldl add_file [] names))"
proof -
  let ?d = "foldl add_file [] names"
  from foldl_add_file_records_original [OF assms(1,2), of "[]"] obtain e1 where
    e1: "(b, e1) \<in> set ?d" "original_file e1 \<noteq> None" by blast
  from foldl_add_file_records_proof [OF assms(3,4), of "[]"] obtain e2 where
    e2: "(b, e2) \<in> set ?d" "proof_file e2 \<noteq> None" by blast
  have "distinct (map fst ?d)" by (rule foldl_add_file_distinct) simp
  from this e1(1) e2(1) have "e1 = e2" by (rule eq_key_imp_eq_value)
  with e1 e2 obtain o1 q1 where "original_file e1 = Some o1" "proof_file e1 = Some q1"
    by auto
  with e1(1) have "\<lparr>pair_id = b, original_path = path_join folder o1,
      proof_path = path_join folder q1\<rparr> \<in> set (valid_pairs folder ?d)"
    unfolding valid_pairs_mem by blast
  then show ?thesis by force
qed

lemma get_image_pairs_listing:
  "listdir fs folder = Some names \<Longrightarrow>
   get_image_pairs fs folder = valid_pairs folder (foldl add_file [] names)"
  by (simp add: get_image_pairs_def)

text \<open>
  Claim C10. \<^verbatim>\<open>get_image_pairs\<close> gives every file name at most one role, by a function
  of the name alone. A name is an image name when its lower-case form ends in
  \<^verbatim>\<open>.png\<close>, \<^verbatim>\<open>.jpg\<close> or \<^verbatim>\<open>.jpeg\<close>. An image name that contains \<^verbatim>\<open>_original\<close> is an
  original, and its identifier is the text before the first \<^verbatim>\<open>_original\<close>; an image name
  that does not contain \<^verbatim>\<open>_original\<close> but contains \<^verbatim>\<open>_proof\<close> is a proof, and its
  identifier is the text before the first \<^verbatim>\<open>_proof\<close>; every other name has no role. For
  a folder whose listing is \<open>names\<close>: the names with no role can be removed from the
  listing without changing the result; every returned pair has the path of an original
  and the path of a proof of the listing, both with the identifier of the pair; the
  identifiers returned are exactly those that have an original and a proof in the
  listing; and no identifier is returned twice.
\<close>

theorem get_image_pairs_classification:
  "(is_image_name nm \<longleftrightarrow>
      (\<exists>stem. lower nm = stem @ ''.png'' \<or> lower nm = stem @ ''.jpg'' \<or>
         lower nm = stem @ ''.jpeg'')) \<and>
   (classify nm = Some (Original, base) \<longleftrightarrow>
      is_image_name nm \<and> (\<exists>rest. nm = base @ ''_original'' @ rest) \<and>
      (\<forall>p r. nm = p @ ''_original'' @ r \<longrightarrow> length base \<le> length p)) \<and>
   (classify nm = Some (Proof, base) \<longleftrightarrow>
      is_image_name nm \<and> \<not> (\<exists>p r. nm = p @ ''_original'' @ r) \<and>
      (\<exists>rest. nm = base @ ''_proof'' @ rest) \<and>
      (\<forall>p r. nm = p @ ''_proof'' @ r \<longrightarrow> length base \<le> length p)) \<and>
   (classify nm = None \<longleftrightarrow>
      \<not> is_image_name nm \<or>
      \<not> (\<exists>p r. nm = p @ ''_original'' @ r) \<and> \<not> (\<exists>p r. nm = p @ ''_proof'' @ r)) \<and>
   (listdir fs folder = Some names \<longrightarrow>
      get_image_pairs
        (fs\<lparr>listdir := (listdir fs)(folder \<mapsto> filter (\<lambda>f. classify f \<noteq> None) names)\<rparr>) folder =
        get_image_pairs fs folder \<and>
      (\<forall>p \<in> set (get_image_pairs fs folder). \<exists>orig \<in> set names. \<exists>pf \<in> set names.
          classify orig = Some (Original, pair_id p) \<and> classify pf = Some (Proof, pair_id p) \<and>
          original_path p = path_join folder orig \<and> proof_path p = path_join folder pf) \<and>
      pair_id ` set (get_image_pairs fs folder) =
        {b. (\<exists>orig \<in> set names. classify orig = Some (Original, b)) \<and>
            (\<exists>pf \<in> set names. classify pf = Some (Proof, b))} \<and>
      distinct (map pair_id (get_image_pairs fs folder)))"
proof (intro conjI impI)
  show "is_image_name nm \<longleftrightarrow>
      (\<exists>stem. lower nm = stem @ ''.png'' \<or> lower nm = stem @ ''.jpg'' \<or>
         lower nm = stem @ ''.jpeg'')"
    unfolding is_image_name_def endswith_iff by blast
  show "classify nm = Some (Original, base) \<longleftrightarrow>
      is_image_name nm \<and> (\<exists>rest. nm = base @ ''_original'' @ rest) \<and>
      (\<forall>p r. nm = p @ ''_original'' @ r \<longrightarrow> length base \<le> length p)"
    unfolding classify_Original before_first_iff by (rule refl)
  have no: "before_first ''_original'' nm = None \<longleftrightarrow> \<not> (\<exists>p r. nm = p @ ''_original'' @ r)"
    using contains_iff [of nm "''_original''"] by (simp only: contains_def) blast
  show "classify nm = Some (Proof, base) \<longleftrightarrow>
      is_image_name nm \<and> \<not> (\<exists>p r. nm = p @ ''_original'' @ r) \<and>
      (\<exists>rest. nm = base @ ''_proof'' @ rest) \<and>
      (\<forall>p r. nm = p @ ''_proof'' @ r \<longrightarrow> length base \<le> length p)"
    unfolding classify_Proof before_first_iff [of "''_proof''"] no by (rule refl)
  show "classify nm = None \<longleftrightarrow>
      \<not> is_image_name nm \<or>
      \<not> (\<exists>p r. nm = p @ ''_original'' @ r) \<and> \<not> (\<exists>p r. nm = p @ ''_proof'' @ r)"
    unfolding classify_None contains_iff by (rule refl)
next
  assume l: "listdir fs folder = Some names"
  note g = get_image_pairs_listing [OF l]
  show "get_image_pairs
        (fs\<lparr>listdir := (listdir fs)(folder \<mapsto> filter (\<lambda>f. classify f \<noteq> None) names)\<rparr>) folder =
        get_image_pairs fs folder"
  proof -
    have "listdir
        (fs\<lparr>listdir := (listdir fs)(folder \<mapsto> filter (\<lambda>f. classify f \<noteq> None) names)\<rparr>) folder =
        Some (filter (\<lambda>f. classify f \<noteq> None) names)"
      by simp
    from get_image_pairs_listing [OF this] show ?thesis
      unfolding g by (simp only: foldl_add_file_filter)
  qed
  show "\<forall>p \<in> set (get_image_pairs fs folder). \<exists>orig \<in> set names. \<exists>pf \<in> set names.
          classify orig = Some (Original, pair_id p) \<and> classify pf = Some (Proof, pair_id p) \<and>
          original_path p = path_join folder orig \<and> proof_path p = path_join folder pf"
    unfolding g using paired_ids_sound by blast
  show "pair_id ` set (get_image_pairs fs folder) =
        {b. (\<exists>orig \<in> set names. classify orig = Some (Original, b)) \<and>
            (\<exists>pf \<in> set names. classify pf = Some (Proof, b))}"
  proof (intro equalityI subsetI)
    fix b assume "b \<in> pair_id ` set (get_image_pairs fs folder)"
    then obtain p where p: "p \<in> set (valid_pairs folder (foldl add_file [] names))"
      and b: "b = pair_id p" unfolding g by blast
    from paired_ids_sound [OF p] b
    show "b \<in> {b. (\<exists>orig \<in> set names. classify orig = Some (Original, b)) \<and>
            (\<exists>pf \<in> set names. classify pf = Some (Proof, b))}" by blast
  next
    fix b assume "b \<in> {b. (\<exists>orig \<in> set names. classify orig = Some (Original, b)) \<and>
            (\<exists>pf \<in> set names. classify pf = Some (Proof, b))}"
    then obtain orig pf where "orig \<in> set names" "classify orig = Some (Original, b)"
      "pf \<in> set names" "classify pf = Some (Proof, b)" by blast
    then show "b \<in> pair_id ` set (get_image_pairs fs folder)"
      unfolding g by (rule paired_ids_complete)
  qed
  show "distinct (map pair_id (get_image_pairs fs folder))"
    unfolding g by (intro valid_pairs_distinct foldl_add_file_distinct) simp
qed

theorem get_image_pairs_classification_witness:
  "listdir two_pairs_folder ''photos'' =
     Some [''12_original.jpg'', ''7_proof.PNG'', ''12_proof.jpg'', ''notes.txt'',
           ''7_original.png'', ''9_original.jpeg''] \<and>
   classify ''12_original.jpg'' = Some (Original, ''12'') \<and>
   is_image_name ''12_original.jpg'' \<and>
   pair_id ` set (get_image_pairs two_pairs_folder ''photos'') = {''12'', ''7''} \<and>
   distinct (map pair_id (get_image_pairs two_pairs_folder ''photos''))"
proof -
  let ?names = "[''12_original.jpg'', ''7_proof.PNG'', ''12_proof.jpg'', ''notes.txt'',
           ''7_original.png'', ''9_original.jpeg'']"
  have l: "listdir two_pairs_folder ''photos'' = Some ?names"
    by (simp add: two_pairs_folder_def)
  have c: "classify ''12_original.jpg'' = Some (Original, ''12'')"
    by (rule classify_examples(1))
  from get_image_pairs_classification
    [of "''12_original.jpg''" "''12''" two_pairs_folder "''photos''" ?names] l c
  have "is_image_name ''12_original.jpg'' \<and>
      distinct (map pair_id (get_image_pairs two_pairs_folder ''photos''))"
    by blast
  with l c show ?thesis by (simp add: two_pairs_listing)
qed

end
